theory Spec2Isabelle
  imports Main "HOL-Library.Word"
begin

unbundle bit_operations_syntax

section \<open>The mixing primitive\<close>

text \<open>
  \<^verbatim>\<open>std::size_t\<close> is an unsigned machine word whose width depends on the platform; it
  is modelled as \<open>'w word\<close> for an arbitrary width \<open>'w\<close>, so that \<open>+\<close> wraps around
  modulo \<open>2 ^ LENGTH('w)\<close>, \<open>push_bit\<close> is \<^verbatim>\<open><<\<close> and \<open>drop_bit\<close> is the logical
  \<^verbatim>\<open>>>\<close>.  The literal \<^verbatim>\<open>0x9e3779b9\<close> does not fit \<^verbatim>\<open>int\<close>, hence it is unsigned
  and converts to \<^verbatim>\<open>std::size_t\<close> without sign extension.

  \<^verbatim>\<open>
  inline std::size_t hash_combine(std::size_t seed, std::size_t value) {
    return seed ^ (value + 0x9e3779b9 + (seed << 6) + (seed >> 2));
  }
  \<close>
\<close>

definition hash_combine :: "'w::len word \<Rightarrow> 'w word \<Rightarrow> 'w word" where
  "hash_combine seed v = seed XOR (v + 0x9e3779b9 + push_bit 6 seed + drop_bit 2 seed)"

text \<open>
  The reference formula of the specification, written over natural numbers with the
  reduction modulo \<open>2 ^ w\<close> spelled out.  It is the second, independent reading against
  which \<open>hash_combine\<close> is compared.
\<close>

definition combine_spec :: "nat \<Rightarrow> nat \<Rightarrow> nat \<Rightarrow> nat" where
  "combine_spec w s v = s XOR ((v + 0x9e3779b9 + s * 2 ^ 6 + s div 2 ^ 2) mod 2 ^ w)"

section \<open>Overload resolution of \<^verbatim>\<open>dispatch_hash\<close>\<close>

text \<open>
  Every failure of the library happens while the templates are instantiated.  The model
  keeps these failures as values.
  \<^item> \<open>NoMatchingFunction\<close>: every overload of \<^verbatim>\<open>dispatch_hash\<close> is removed by SFINAE;
  \<^item> \<open>AmbiguousCall\<close>: more than one overload survives, and none is more specialised
    (all three have the parameter list \<^verbatim>\<open>(const T&)\<close>);
  \<^item> \<open>TupleIndexOutOfRange\<close>: \<^verbatim>\<open>std::get<idx>\<close> is applied outside the tuple;
  \<^item> \<open>TypeMismatch\<close>: the value handed to the model does not have the shape of the type
    it is hashed at; the C++ type system excludes this input.
\<close>

datatype error = NoMatchingFunction | AmbiguousCall | TupleIndexOutOfRange | TypeMismatch

text \<open>
  What the three overloads ask of a type \<^verbatim>\<open>T\<close>.  The standard library is not part of
  the repository, so its hash functions are parameters of the model.
  \<^item> \<open>is_enum\<close>: \<^verbatim>\<open>std::is_enum<T>::value\<close>;
  \<^item> \<open>std_hash\<close>: \<^verbatim>\<open>std::hash<T>()(o)\<close> when that expression is well formed;
  \<^item> \<open>to_underlying\<close>: \<^verbatim>\<open>static_cast<R>(o)\<close> for \<^verbatim>\<open>R = std::underlying_type<T>::type\<close>;
  \<^item> \<open>underlying_std_hash\<close>: \<^verbatim>\<open>std::hash<R>()\<close>;
  \<^item> \<open>static_hash\<close>: \<^verbatim>\<open>T::hash(o)\<close> when that expression is well formed.
  The digest type \<open>'d\<close> is always instantiated with \<open>'w word\<close>.
\<close>

record ('a, 'd) type_traits =
  is_enum :: bool
  std_hash :: "('a \<Rightarrow> 'd) option"
  to_underlying :: "'a \<Rightarrow> 'a"
  underlying_std_hash :: "'a \<Rightarrow> 'd"
  static_hash :: "('a \<Rightarrow> 'd) option"

text \<open>
  \<^verbatim>\<open>
  template<typename T>
  auto dispatch_hash(const T& o)
    -> decltype(std::hash<T>()(o), type_if_not_enum<T, std::size_t>()) {
    return std::hash<T>()(o);
  }
  \<close>
  The overload takes part in resolution when \<^verbatim>\<open>std::hash<T>()(o)\<close> is well formed and
  \<^verbatim>\<open>T\<close> is not an enumeration.
\<close>

definition std_overload :: "('a, 'w::len word) type_traits \<Rightarrow> ('a \<Rightarrow> 'w word) list" where
  "std_overload T =
     (case std_hash T of
        Some h \<Rightarrow> (if is_enum T then [] else [h])
      | None \<Rightarrow> [])"

text \<open>
  \<^verbatim>\<open>
  template<typename T>
  typename std::enable_if<std::is_enum<T>::value, std::size_t>::type
  dispatch_hash(const T& o) {
    using R = typename std::underlying_type<T>::type;
    return std::hash<R>()(static_cast<R>(o));
  }
  \<close>
\<close>

definition enum_overload :: "('a, 'w::len word) type_traits \<Rightarrow> ('a \<Rightarrow> 'w word) list" where
  "enum_overload T =
     (if is_enum T then [\<lambda>obj. underlying_std_hash T (to_underlying T obj)] else [])"

text \<open>
  \<^verbatim>\<open>
  template<typename T>
  auto dispatch_hash(const T& o) -> decltype(T::hash(o), std::size_t()) {
    return T::hash(o);
  }
  \<close>
\<close>

definition static_overload :: "('a, 'w::len word) type_traits \<Rightarrow> ('a \<Rightarrow> 'w word) list" where
  "static_overload T =
     (case static_hash T of
        Some h \<Rightarrow> [h]
      | None \<Rightarrow> [])"

text \<open>The overloads that survive SFINAE, in the order of their declaration.\<close>

definition viable :: "('a, 'w::len word) type_traits \<Rightarrow> ('a \<Rightarrow> 'w word) list" where
  "viable T = std_overload T @ enum_overload T @ static_overload T"

text \<open>
  The call \<^verbatim>\<open>_hash_detail::dispatch_hash(o)\<close>: it compiles exactly when one overload
  is viable, and then runs that overload.
\<close>

definition dispatch_hash :: "('a, 'w::len word) type_traits \<Rightarrow> 'a \<Rightarrow> error + 'w word" where
  "dispatch_hash T obj =
     (case viable T of
        [] \<Rightarrow> Inl NoMatchingFunction
      | [f] \<Rightarrow> Inr (f obj)
      | _ \<Rightarrow> Inl AmbiguousCall)"

text \<open>
  The type \<^verbatim>\<open>R = std::underlying_type<T>::type\<close> of an enumeration: an integral type,
  hence not an enumeration, hashed by \<^verbatim>\<open>std::hash<R>\<close>, and without members.
\<close>

definition underlying_type :: "('a, 'w::len word) type_traits \<Rightarrow> ('a, 'w word) type_traits" where
  "underlying_type T =
     \<lparr>is_enum = False,
      std_hash = Some (underlying_std_hash T),
      to_underlying = (\<lambda>obj. obj),
      underlying_std_hash = underlying_std_hash T,
      static_hash = None\<rparr>"

section \<open>Types and values\<close>

text \<open>
  \<^verbatim>\<open>torch::hash<T>\<close> has a primary template and two specialisations, for
  \<^verbatim>\<open>std::tuple<Types...>\<close> and for \<^verbatim>\<open>std::vector<T>\<close>.  A tuple element is held by value
  (\<^verbatim>\<open>std::tuple<A, B>\<close>) or by reference to const (\<^verbatim>\<open>std::tie\<close> on \<^verbatim>\<open>const\<close> arguments
  builds \<^verbatim>\<open>std::tuple<const A&, const B&>\<close>).
\<close>

datatype passing = ByValue | ByConstRef

datatype ('a, 'd) ty =
    PlainT "('a, 'd) type_traits"
  | TupleT "(passing \<times> ('a, 'd) ty) list"
  | VectorT "('a, 'd) ty"

datatype 'a val = Obj 'a | TupleV "'a val list" | VectorV "'a val list"

text \<open>
  \<^verbatim>\<open>simple_get_hash(const T& o)\<close> deduces \<^verbatim>\<open>T\<close> from its argument.  For the argument
  \<^verbatim>\<open>std::get<idx>(t)\<close> the deduced type is the element type without its reference.
\<close>

fun deduce :: "passing \<times> ('a, 'd) ty \<Rightarrow> ('a, 'd) ty" where
  "deduce (p, T) = T"

text \<open>
  Instantiating \<^verbatim>\<open>torch::hash<T>::operator()\<close> needs the type only, not a value.  The
  body of the specialisation for \<^verbatim>\<open>std::vector<T>\<close> names \<^verbatim>\<open>simple_get_hash<T>\<close>, hence
  it is instantiated even when the vector is empty at run time.
\<close>

fun first_error :: "error option list \<Rightarrow> error option" where
  "first_error [] = None"
| "first_error (None # es) = first_error es"
| "first_error (Some e # es) = Some e"

fun instantiate :: "('a, 'w::len word) ty \<Rightarrow> error option" where
  "instantiate (PlainT T) =
     (case viable T of
        [] \<Rightarrow> Some NoMatchingFunction
      | [f] \<Rightarrow> None
      | _ \<Rightarrow> Some AmbiguousCall)"
| "instantiate (TupleT Ts) =
     (if Ts = [] then Some TupleIndexOutOfRange
      else first_error (map (\<lambda>E. instantiate (deduce E)) Ts))"
| "instantiate (VectorT T) = instantiate T"

section \<open>\<^verbatim>\<open>torch::hash\<close>\<close>

text \<open>
  \<^verbatim>\<open>
  template<typename T> struct hash {
    std::size_t operator()(const T& o) const { return _hash_detail::dispatch_hash(o); };
  };

  template<typename... Types> struct hash<std::tuple<Types...>> {
    template<std::size_t idx, typename... Ts> struct tuple_hash {
      std::size_t operator()(const std::tuple<Ts...>& t) const {
        return hash_combine(_hash_detail::simple_get_hash(std::get<idx>(t)),
                            tuple_hash<idx-1, Ts...>()(t));
      }
    };
    template<typename... Ts> struct tuple_hash<0, Ts...> {
      std::size_t operator()(const std::tuple<Ts...>& t) const {
        return _hash_detail::simple_get_hash(std::get<0>(t));
      }
    };
    std::size_t operator()(const std::tuple<Types...>& t) const {
      return tuple_hash<sizeof...(Types)-1, Types...>()(t);
    }
  };

  template<typename T> struct hash<std::vector<T>> {
    std::size_t operator()(const std::vector<T>& v) const {
      std::size_t seed = 0;
      for (const auto & elem : v) {
        seed = hash_combine(seed, _hash_detail::simple_get_hash(elem));
      }
      return seed;
    }
  };

  template<typename T> std::size_t simple_get_hash(const T& o) {
    return torch::hash<T>()(o);
  }
  \<close>
  The template parameter \<^verbatim>\<open>idx\<close> is a \<^verbatim>\<open>std::size_t\<close>, so \<^verbatim>\<open>sizeof...(Types)-1\<close> and
  \<^verbatim>\<open>idx-1\<close> are computed on words.  \<^verbatim>\<open>std::get<idx>\<close> is ill formed when \<^verbatim>\<open>idx\<close> is not
  below the arity of the tuple.  The body of the range-for loop is \<open>vector_loop\<close>, with
  the accumulator \<^verbatim>\<open>seed\<close> as an argument.
\<close>

function simple_get_hash :: "('a, 'w::len word) ty \<Rightarrow> 'a val \<Rightarrow> error + 'w word"
  and torch_hash :: "('a, 'w word) ty \<Rightarrow> 'a val \<Rightarrow> error + 'w word"
  and tuple_hash ::
    "'w word \<Rightarrow> (passing \<times> ('a, 'w word) ty) list \<Rightarrow> 'a val list \<Rightarrow> error + 'w word"
  and vector_loop :: "('a, 'w word) ty \<Rightarrow> 'w word \<Rightarrow> 'a val list \<Rightarrow> error + 'w word"
where
  "simple_get_hash T obj = torch_hash T obj"
| "torch_hash (PlainT T) obj =
     (case obj of
        Obj x \<Rightarrow> dispatch_hash T x
      | _ \<Rightarrow> Inl TypeMismatch)"
| "torch_hash (TupleT Ts) obj =
     (case obj of
        TupleV t \<Rightarrow>
          if length t = length Ts then tuple_hash (word_of_nat (length Ts) - 1) Ts t
          else Inl TypeMismatch
      | _ \<Rightarrow> Inl TypeMismatch)"
| "torch_hash (VectorT T) obj =
     (case obj of
        VectorV v \<Rightarrow>
          (case instantiate T of
             Some e \<Rightarrow> Inl e
           | None \<Rightarrow> vector_loop T 0 v)
      | _ \<Rightarrow> Inl TypeMismatch)"
| "tuple_hash idx Ts t =
     (if unat idx < length Ts \<and> unat idx < length t then
        (if idx = 0 then simple_get_hash (deduce (Ts ! 0)) (t ! 0)
         else
           (case simple_get_hash (deduce (Ts ! unat idx)) (t ! unat idx) of
              Inl e \<Rightarrow> Inl e
            | Inr h \<Rightarrow>
                (case tuple_hash (idx - 1) Ts t of
                   Inl e \<Rightarrow> Inl e
                 | Inr d \<Rightarrow> Inr (hash_combine h d))))
      else Inl TupleIndexOutOfRange)"
| "vector_loop T seed [] = Inr seed"
| "vector_loop T seed (elem # v) =
     (case simple_get_hash T elem of
        Inl e \<Rightarrow> Inl e
      | Inr h \<Rightarrow> vector_loop T (hash_combine seed h) v)"
  by pat_completeness auto

lemma size_deduce_le: "size (deduce E) \<le> size_prod (\<lambda>_. 0) size E"
  by (cases E) simp

lemma size_deduce_nth:
  "i < length Ts \<Longrightarrow> size (deduce (Ts ! i)) < Suc (size_list (size_prod (\<lambda>_. 0) size) Ts)"
proof (induction Ts arbitrary: i)
  case Nil
  then show ?case by simp
next
  case (Cons E Ts)
  show ?case
  proof (cases i)
    case 0
    then show ?thesis using size_deduce_le [of E] by simp
  next
    case (Suc j)
    with Cons.prems have "j < length Ts" by simp
    from Cons.IH [OF this] Suc show ?thesis by simp
  qed
qed

lemma unat_pred_less: "idx \<noteq> 0 \<Longrightarrow> unat (idx - 1) < unat (idx :: 'w::len word)"
  by (simp add: unat_minus_one unat_gt_0 word_greater_zero_iff)

termination simple_get_hash
proof (relation "inv_image (less_than <*lex*> less_than <*lex*> less_than)
     (\<lambda>x. case x of
        Inl (Inl (T, obj)) \<Rightarrow> (size T, 2::nat, 0::nat)
      | Inl (Inr (T, obj)) \<Rightarrow> (size T, 1, 0)
      | Inr (Inl (idx, Ts, t)) \<Rightarrow> (size (TupleT Ts), 0, unat idx)
      | Inr (Inr (T, seed, v)) \<Rightarrow> (size (VectorT T), 0, length v))", goal_cases)
  case 1
  show ?case by (intro wf_inv_image wf_lex_prod wf_less_than)
next
  case 2
  show ?case by simp
next
  case 3
  show ?case by simp
next
  case 4
  show ?case by simp
next
  case (5 idx Ts t)
  then show ?case using size_deduce_nth [of 0 Ts] by simp
next
  case (6 idx Ts t)
  then show ?case using size_deduce_nth [of "unat idx" Ts] by simp
next
  case (7 idx Ts t x)
  then show ?case using unat_pred_less [of idx] by simp
next
  case 8
  show ?case by simp
next
  case 9
  show ?case by simp
qed

declare tuple_hash.simps [simp del]

declare simple_get_hash.simps [simp del]

text \<open>
  \<^verbatim>\<open>
  template<typename... Types> std::size_t get_hash(const Types&... args) {
    return torch::hash<decltype(std::tie(args...))>()(std::tie(args...));
  }
  \<close>
  \<^verbatim>\<open>std::tie(args...)\<close> has the type \<^verbatim>\<open>std::tuple<const Types&...>\<close>.
\<close>

definition get_hash :: "('a, 'w::len word) ty list \<Rightarrow> 'a val list \<Rightarrow> error + 'w word" where
  "get_hash Ts args = torch_hash (TupleT (map (Pair ByConstRef) Ts)) (TupleV args)"

section \<open>Reference readings of the composite rules\<close>

text \<open>
  The tuple recursion as the specification words it, over the list \<open>hs\<close> of the
  elements' scalar hashes: the digest of the prefix \<open>0..0\<close> is the hash of element 0,
  and the digest of the prefix \<open>0..i\<close> for \<open>i > 0\<close> combines the hash of element \<open>i\<close>
  (as seed) with the digest of the prefix \<open>0..i-1\<close>.
\<close>

fun prefix_digest :: "'w::len word list \<Rightarrow> nat \<Rightarrow> 'w word" where
  "prefix_digest hs 0 = hs ! 0"
| "prefix_digest hs (Suc i) = hash_combine (hs ! Suc i) (prefix_digest hs i)"

text \<open>
  A type none of whose three overloads is viable occurs in a type: as the type itself,
  as the deduced type of a tuple element, or as the element type of a vector, at any
  depth.
\<close>

fun unhashable_inside :: "('a, 'w::len word) ty \<Rightarrow> bool" where
  "unhashable_inside (PlainT T) =
     (Option.is_none (std_hash T) \<and> \<not> is_enum T \<and> Option.is_none (static_hash T))"
| "unhashable_inside (TupleT Ts) = list_ex (\<lambda>E. unhashable_inside (deduce E)) Ts"
| "unhashable_inside (VectorT T) = unhashable_inside T"

text \<open>
  \<^verbatim>\<open>sizeof...(Types)\<close> is a \<^verbatim>\<open>std::size_t\<close>: the arity of every tuple type is below
  \<open>2 ^ LENGTH('w)\<close>.
\<close>

fun arity_fits :: "('a, 'w::len word) ty \<Rightarrow> bool" where
  "arity_fits (PlainT T) = True"
| "arity_fits (TupleT Ts) =
     (length Ts < 2 ^ LENGTH('w) \<and> list_all (\<lambda>E. arity_fits (deduce E)) Ts)"
| "arity_fits (VectorT T) = arity_fits T"

text \<open>
  The values a C++ expression of a given type can have: an object for a plain type, one
  element per element type for a tuple, any number of elements of the element type for
  a vector.
\<close>

fun well_typed :: "('a, 'd) ty \<Rightarrow> 'a val \<Rightarrow> bool" where
  "well_typed (PlainT T) obj = (case obj of Obj x \<Rightarrow> True | _ \<Rightarrow> False)"
| "well_typed (TupleT Ts) obj =
     (case obj of
        TupleV t \<Rightarrow> list_all2 (\<lambda>E x. well_typed (deduce E) x) Ts t
      | _ \<Rightarrow> False)"
| "well_typed (VectorT T) obj =
     (case obj of
        VectorV v \<Rightarrow> list_all (well_typed T) v
      | _ \<Rightarrow> False)"

section \<open>Example types\<close>

text \<open>
  Concrete types on a 64-bit platform, with objects represented by integers.
  \<open>int_type\<close> is \<^verbatim>\<open>int\<close> with a \<^verbatim>\<open>std::hash<int>\<close> that converts its argument to
  \<^verbatim>\<open>std::size_t\<close>; \<open>colour_enum\<close> is an enumeration over \<^verbatim>\<open>int\<close> in a library that
  also hashes enumerations; \<open>opaque_type\<close> is a class with neither a \<^verbatim>\<open>std::hash\<close>
  specialisation nor a static \<^verbatim>\<open>hash\<close>; \<open>custom_type\<close> is a class with a static
  \<^verbatim>\<open>hash\<close> only; \<open>both_type\<close> is a class with a \<^verbatim>\<open>std::hash\<close> specialisation and a
  static \<^verbatim>\<open>hash\<close>.
\<close>

definition int_type :: "(int, 64 word) type_traits" where
  "int_type =
     \<lparr>is_enum = False,
      std_hash = Some word_of_int,
      to_underlying = (\<lambda>x. x),
      underlying_std_hash = word_of_int,
      static_hash = None\<rparr>"

definition colour_enum :: "(int, 64 word) type_traits" where
  "colour_enum =
     \<lparr>is_enum = True,
      std_hash = Some word_of_int,
      to_underlying = (\<lambda>x. x),
      underlying_std_hash = word_of_int,
      static_hash = None\<rparr>"

definition opaque_type :: "(int, 64 word) type_traits" where
  "opaque_type =
     \<lparr>is_enum = False,
      std_hash = None,
      to_underlying = (\<lambda>x. x),
      underlying_std_hash = word_of_int,
      static_hash = None\<rparr>"

definition custom_type :: "(int, 64 word) type_traits" where
  "custom_type =
     \<lparr>is_enum = False,
      std_hash = None,
      to_underlying = (\<lambda>x. x),
      underlying_std_hash = word_of_int,
      static_hash = Some (\<lambda>x. word_of_int (31 * x + 7))\<rparr>"

definition both_type :: "(int, 64 word) type_traits" where
  "both_type =
     \<lparr>is_enum = False,
      std_hash = Some word_of_int,
      to_underlying = (\<lambda>x. x),
      underlying_std_hash = word_of_int,
      static_hash = Some (\<lambda>x. word_of_int (31 * x + 7))\<rparr>"

lemmas dispatch_defs =
  dispatch_hash_def viable_def std_overload_def enum_overload_def static_overload_def

section \<open>The mixing primitive against the reference formula\<close>

lemma unat_sum4:
  fixes a b c d :: "'w::len word"
  shows "unat (a + b + c + d) = (unat a + unat b + unat c + unat d) mod 2 ^ LENGTH('w)"
  by (simp add: unat_word_ariths mod_simps)

lemma unat_shl6:
  fixes s :: "'w::len word"
  shows "unat (push_bit 6 s) = (unat s * 2 ^ 6) mod 2 ^ LENGTH('w)"
proof -
  have "unat (push_bit 6 s) = take_bit LENGTH('w) (push_bit 6 (unat s))"
    by (rule unsigned_push_bit_eq)
  then show ?thesis
    by (simp only: take_bit_eq_mod push_bit_eq_mult)
qed

lemma unat_shr2:
  fixes s :: "'w::len word"
  shows "unat (drop_bit 2 s) = unat s div 2 ^ 2"
  unfolding unat_drop_bit_eq by (rule drop_bit_eq_div)

lemma mod_sum4:
  fixes a k p d m :: nat
  shows "(a + k mod m + p mod m + d) mod m = (a + k + p + d) mod m"
proof -
  have "(a + k mod m + p mod m + d) mod m = ((a + d) + (k mod m + p mod m)) mod m"
    by (simp add: ac_simps)
  also have "\<dots> = ((a + d) + (k + p)) mod m"
    using mod_add_eq [of k m p] mod_add_right_eq [of "a + d" "k mod m + p mod m" m]
      mod_add_right_eq [of "a + d" "k + p" m] by simp
  also have "\<dots> = (a + k + p + d) mod m"
    by (simp add: ac_simps)
  finally show ?thesis .
qed

lemma unat_hash_combine:
  fixes s v :: "'w::len word"
  shows "unat (hash_combine s v) = combine_spec LENGTH('w) (unat s) (unat v)"
proof -
  let ?m = "2 ^ LENGTH('w) :: nat"
  have "unat (v + 0x9e3779b9 + push_bit 6 s + drop_bit 2 s)
      = (unat v + (0x9e3779b9 mod ?m) + (unat s * 2 ^ 6) mod ?m + unat s div 2 ^ 2) mod ?m"
    unfolding unat_sum4 unat_shl6 unat_shr2 unat_numeral ..
  also have "\<dots> = (unat v + 0x9e3779b9 + unat s * 2 ^ 6 + unat s div 2 ^ 2) mod ?m"
    by (rule mod_sum4)
  finally show ?thesis
    by (simp only: hash_combine_def combine_spec_def unsigned_xor_eq)
qed

text \<open>
  C1.  For every seed \<open>s\<close> and value \<open>v\<close> of the word type, \<open>hash_combine s v\<close> is
  \<open>s XOR (v + 0x9e3779b9 + (s << 6) + (s >> 2))\<close> with the arithmetic taken modulo
  \<open>2 ^ w\<close>: the word-level equation holds, and read as natural numbers the result is the
  reference formula \<open>combine_spec\<close>.  The function is total and its result depends on
  the two arguments only.
\<close>

theorem hash_combine_reference_formula:
  fixes s v :: "'w::len word"
  shows "hash_combine s v = s XOR (v + 0x9e3779b9 + push_bit 6 s + drop_bit 2 s)
    \<and> unat (hash_combine s v) = combine_spec LENGTH('w) (unat s) (unat v)
    \<and> hash_combine s v = word_of_nat (combine_spec LENGTH('w) (unat s) (unat v))"
proof (intro conjI)
  show "hash_combine s v = s XOR (v + 0x9e3779b9 + push_bit 6 s + drop_bit 2 s)"
    by (simp only: hash_combine_def)
  show u: "unat (hash_combine s v) = combine_spec LENGTH('w) (unat s) (unat v)"
    by (rule unat_hash_combine)
  have "hash_combine s v = word_of_nat (unat (hash_combine s v))"
    by simp
  then show "hash_combine s v = word_of_nat (combine_spec LENGTH('w) (unat s) (unat v))"
    by (simp only: u)
qed

section \<open>The tuple recursion\<close>

lemma simple_get_hash_eq: "simple_get_hash = torch_hash"
  by (intro ext) (simp add: simple_get_hash.simps)

lemma tuple_hash_out:
  "\<not> (unat idx < length Ts \<and> unat idx < length t) \<Longrightarrow>
   tuple_hash idx Ts t = Inl TupleIndexOutOfRange"
  by (subst tuple_hash.simps) (simp only: if_False)

lemma tuple_hash_0:
  "0 < length Ts \<Longrightarrow> 0 < length t \<Longrightarrow>
   tuple_hash 0 Ts t = simple_get_hash (deduce (Ts ! 0)) (t ! 0)"
  by (subst tuple_hash.simps) simp

lemma tuple_hash_step:
  "idx \<noteq> 0 \<Longrightarrow> unat idx < length Ts \<Longrightarrow> unat idx < length t \<Longrightarrow>
   tuple_hash idx Ts t =
     (case simple_get_hash (deduce (Ts ! unat idx)) (t ! unat idx) of
        Inl e \<Rightarrow> Inl e
      | Inr h \<Rightarrow>
          (case tuple_hash (idx - 1) Ts t of
             Inl e \<Rightarrow> Inl e
           | Inr d \<Rightarrow> Inr (hash_combine h d)))"
  by (subst tuple_hash.simps) (simp only: simp_thms if_True if_False)

lemma tuple_hash_empty: "tuple_hash idx [] t = Inl TupleIndexOutOfRange"
  by (simp add: tuple_hash_out)

lemma unat_index: "i < 2 ^ LENGTH('w) \<Longrightarrow> unat (word_of_nat i :: 'w::len word) = i"
  by (simp add: unat_of_nat)

lemma index_Suc_neq_0:
  "Suc i < 2 ^ LENGTH('w) \<Longrightarrow> (word_of_nat (Suc i) :: 'w::len word) \<noteq> 0"
  using unat_index [of "Suc i", where 'w='w] by (metis nat.distinct(1) unat_0)

lemma index_Suc_pred: "(word_of_nat (Suc i) :: 'w::len word) - 1 = word_of_nat i"
  by simp

lemma start_index:
  "0 < n \<Longrightarrow> (word_of_nat n - 1 :: 'w::len word) = word_of_nat (n - 1)"
  by (cases n) simp_all

lemma unat_start_index:
  assumes "0 < n" "n \<le> 2 ^ LENGTH('w)"
  shows "unat (word_of_nat n - 1 :: 'w::len word) = n - 1"
proof -
  from assms have "n - 1 < 2 ^ LENGTH('w)" by simp
  then have "unat (word_of_nat (n - 1) :: 'w word) = n - 1" by (rule unat_index)
  with assms show ?thesis by (simp only: start_index)
qed


text \<open>
  With every element hashed successfully, the instance at index \<open>i\<close> computes the
  reference digest of the prefix \<open>0..i\<close>.
\<close>

lemma tuple_hash_prefix:
  fixes Ts :: "(passing \<times> ('a, 'w::len word) ty) list"
  assumes len: "length t = length Ts" "length Ts \<le> 2 ^ LENGTH('w)"
    and el: "\<And>j. j < length Ts \<Longrightarrow> simple_get_hash (deduce (Ts ! j)) (t ! j) = Inr (hs ! j)"
  shows "i < length Ts \<Longrightarrow> tuple_hash (word_of_nat i) Ts t = Inr (prefix_digest hs i)"
proof (induction i)
  case 0
  then show ?case using len el [of 0] by (simp add: tuple_hash_0)
next
  case (Suc i)
  from Suc.prems len have b: "Suc i < 2 ^ LENGTH('w)" by simp
  have u: "unat (word_of_nat (Suc i) :: 'w word) = Suc i" using b by (rule unat_index)
  have nz: "(word_of_nat (Suc i) :: 'w word) \<noteq> 0" using b by (rule index_Suc_neq_0)
  have ih: "tuple_hash (word_of_nat i) Ts t = Inr (prefix_digest hs i)"
    using Suc by simp
  have "tuple_hash (word_of_nat (Suc i)) Ts t =
     (case simple_get_hash (deduce (Ts ! Suc i)) (t ! Suc i) of
        Inl e \<Rightarrow> Inl e
      | Inr h \<Rightarrow>
          (case tuple_hash (word_of_nat (Suc i) - 1) Ts t of
             Inl e \<Rightarrow> Inl e
           | Inr d \<Rightarrow> Inr (hash_combine h d)))"
    using tuple_hash_step [OF nz, of Ts t] Suc.prems len by (simp only: u)
  then show ?case
    using el [OF Suc.prems] ih by (simp only: index_Suc_pred sum.case prefix_digest.simps)
qed

lemma map2_nth:
  assumes "length t = length Ts" "map2 f Ts t = map g hs" "j < length Ts"
  shows "f (Ts ! j) (t ! j) = g (hs ! j)" and "length hs = length Ts"
proof -
  from assms(2) have "length (map2 f Ts t) = length (map g hs)" by simp
  with assms(1) show l: "length hs = length Ts" by simp
  from assms(1,3) have "map2 f Ts t ! j = f (Ts ! j) (t ! j)" by simp
  moreover from l assms(3) have "map g hs ! j = g (hs ! j)" by simp
  ultimately show "f (Ts ! j) (t ! j) = g (hs ! j)" using assms(2) by simp
qed

lemma torch_hash_tuple_prefix:
  fixes Ts :: "(passing \<times> ('a, 'w::len word) ty) list"
  assumes "Ts \<noteq> []" "length Ts < 2 ^ LENGTH('w)" "length t = length Ts"
    and "map2 (\<lambda>E x. simple_get_hash (deduce E) x) Ts t = map Inr hs"
  shows "torch_hash (TupleT Ts) (TupleV t) = Inr (prefix_digest hs (length Ts - 1))"
proof -
  have el: "simple_get_hash (deduce (Ts ! j)) (t ! j) = Inr (hs ! j)" if "j < length Ts" for j
    using map2_nth(1) [OF assms(3,4) that] .
  from assms(1) have pos: "0 < length Ts" "length Ts - 1 < length Ts" by simp_all
  from assms(2) have le: "length Ts \<le> 2 ^ LENGTH('w)" by simp
  have "tuple_hash (word_of_nat (length Ts - 1)) Ts t = Inr (prefix_digest hs (length Ts - 1))"
    using assms(3) le el pos(2) by (rule tuple_hash_prefix)
  then show ?thesis
    using assms(3) pos(1) by (simp add: start_index)
qed

text \<open>
  C2.  For a tuple of arity at least one (the arity being a \<^verbatim>\<open>std::size_t\<close>) whose
  elements have the scalar hashes \<open>hs\<close>, the instance of \<open>tuple_hash\<close> at every index
  \<open>i\<close> yields the digest of the prefix \<open>0..i\<close> as the recursion of the specification
  defines it (\<open>prefix_digest\<close>: the hash of element 0 at index 0, and
  \<open>hash_combine (hash of element i) (digest of 0..i-1)\<close> above), the digest of the tuple
  is the one of the whole prefix, and the digest of a pair \<open>(a, b)\<close> is
  \<open>hash_combine (hash of b) (hash of a)\<close>.
\<close>

theorem tuple_digest_recursion:
  fixes Ts :: "(passing \<times> ('a, 'w::len word) ty) list"
  assumes "Ts \<noteq> []" and "length Ts < 2 ^ LENGTH('w)" and "length t = length Ts"
    and "map2 (\<lambda>E x. simple_get_hash (deduce E) x) Ts t = map Inr hs"
  shows "(\<forall>i<length Ts. tuple_hash (word_of_nat i) Ts t = Inr (prefix_digest hs i))
    \<and> prefix_digest hs 0 = hs ! 0
    \<and> (\<forall>i. prefix_digest hs (Suc i) = hash_combine (hs ! Suc i) (prefix_digest hs i))
    \<and> torch_hash (TupleT Ts) (TupleV t) = Inr (prefix_digest hs (length Ts - 1))
    \<and> (length Ts = 2 \<longrightarrow>
         torch_hash (TupleT Ts) (TupleV t) = Inr (hash_combine (hs ! 1) (hs ! 0)))"
proof (intro conjI allI impI)
  have el: "simple_get_hash (deduce (Ts ! j)) (t ! j) = Inr (hs ! j)" if "j < length Ts" for j
    using map2_nth(1) [OF assms(3,4) that] .
  from assms(2) have le: "length Ts \<le> 2 ^ LENGTH('w)" by simp
  show "tuple_hash (word_of_nat i) Ts t = Inr (prefix_digest hs i)" if "i < length Ts" for i
    using assms(3) le el that by (rule tuple_hash_prefix)
  show "prefix_digest hs 0 = hs ! 0"
    by simp
  show "prefix_digest hs (Suc i) = hash_combine (hs ! Suc i) (prefix_digest hs i)" for i
    by simp
  show whole: "torch_hash (TupleT Ts) (TupleV t) = Inr (prefix_digest hs (length Ts - 1))"
    using assms by (rule torch_hash_tuple_prefix)
  show "torch_hash (TupleT Ts) (TupleV t) = Inr (hash_combine (hs ! 1) (hs ! 0))"
    if "length Ts = 2"
    using whole that by simp
qed

theorem tuple_digest_recursion_witness:
  "torch_hash (TupleT [(ByValue, PlainT int_type), (ByValue, PlainT int_type)])
     (TupleV [Obj 1, Obj 2]) = Inr (hash_combine 2 1)
   \<and> tuple_hash 0 [(ByValue, PlainT int_type), (ByValue, PlainT int_type)] [Obj 1, Obj 2]
       = Inr 1"
proof -
  let ?Ts = "[(ByValue, PlainT int_type), (ByValue, PlainT int_type)]"
  let ?t = "[Obj 1, Obj 2] :: int val list"
  let ?hs = "[1, 2] :: 64 word list"
  have h1: "?Ts \<noteq> []" by simp
  have h2: "length ?Ts < 2 ^ LENGTH(64)" by simp
  have h3: "length ?t = length ?Ts" by simp
  have h4: "map2 (\<lambda>E x. simple_get_hash (deduce E) x) ?Ts ?t = map Inr ?hs"
    by (simp add: simple_get_hash_eq dispatch_defs int_type_def)
  note r = tuple_digest_recursion [OF h1 h2 h3 h4]
  from r have "\<forall>i<length ?Ts. tuple_hash (word_of_nat i) ?Ts ?t = Inr (prefix_digest ?hs i)"
    by (rule conjunct1)
  then have "0 < length ?Ts \<longrightarrow> tuple_hash (word_of_nat 0) ?Ts ?t = Inr (prefix_digest ?hs 0)"
    by (rule spec)
  then have base: "tuple_hash 0 ?Ts ?t = Inr 1"
    by simp
  from r have "torch_hash (TupleT ?Ts) (TupleV ?t) = Inr (hash_combine 2 1)"
    by simp
  with base show ?thesis
    by (rule conjI [rotated])
qed

text \<open>
  The recursion reads the tuple's element types through \<open>deduce\<close> only, so holding the
  elements by value or by reference to const gives the same result.
\<close>

lemma tuple_hash_deduce_cong:
  fixes Ts Ts' :: "(passing \<times> ('a, 'w::len word) ty) list"
  assumes "map deduce Ts = map deduce Ts'"
  shows "tuple_hash idx Ts t = tuple_hash idx Ts' t"
proof (induction idx rule: measure_induct_rule [of unat])
  case (less idx)
  from assms have len: "length Ts = length Ts'"
    by (rule map_eq_imp_length_eq)
  have el: "deduce (Ts ! i) = deduce (Ts' ! i)" if "i < length Ts" for i
    using that assms len by (metis nth_map)
  show ?case
  proof (cases "unat idx < length Ts \<and> unat idx < length t")
    case False
    then have "\<not> (unat idx < length Ts' \<and> unat idx < length t)"
      using len by simp
    with False show ?thesis
      using tuple_hash_out [of idx Ts t] tuple_hash_out [of idx Ts' t] by simp
  next
    case inb: True
    then have inb': "unat idx < length Ts'" "unat idx < length t" "unat idx < length Ts"
      using len by simp_all
    show ?thesis
    proof (cases "idx = 0")
      case True
      then show ?thesis using inb' el [of 0]
        by (simp add: tuple_hash_0)
    next
      case False
      then have "tuple_hash (idx - 1) Ts t = tuple_hash (idx - 1) Ts' t"
        using less.IH unat_pred_less by blast
      then show ?thesis using inb' el [of "unat idx"] False
        by (simp add: tuple_hash_step cong: sum.case_cong)
    qed
  qed
qed

text \<open>
  C6.  For every list of argument types and every list of arguments, whatever the arity,
  \<open>get_hash\<close> (which hashes the tuple of references built by \<^verbatim>\<open>std::tie\<close>) returns what
  \<open>torch::hash\<close> returns on the tuple holding the same arguments by value, in the same
  order: the same digest, or the same failure.
\<close>

theorem get_hash_is_tuple_hash:
  fixes Ts :: "('a, 'w::len word) ty list"
  shows "get_hash Ts args = torch_hash (TupleT (map (Pair ByValue) Ts)) (TupleV args)"
proof -
  have "map deduce (map (Pair ByConstRef) Ts) = map deduce (map (Pair ByValue) Ts)"
    by simp
  then have "tuple_hash idx (map (Pair ByConstRef) Ts) args
      = tuple_hash idx (map (Pair ByValue) Ts) args" for idx :: "'w word"
    by (rule tuple_hash_deduce_cong)
  then show ?thesis
    by (simp add: get_hash_def)
qed

theorem get_hash_is_tuple_hash_witness:
  "get_hash [PlainT int_type, PlainT custom_type, PlainT colour_enum] [Obj 1, Obj 2, Obj 3]
     = torch_hash
         (TupleT [(ByValue, PlainT int_type), (ByValue, PlainT custom_type),
                  (ByValue, PlainT colour_enum)])
         (TupleV [Obj 1, Obj 2, Obj 3])"
  using get_hash_is_tuple_hash
    [of "[PlainT int_type, PlainT custom_type, PlainT colour_enum]" "[Obj 1, Obj 2, Obj 3]"]
  by simp

section \<open>The domain of tuple hashing\<close>

lemma tuple_hash_defined:
  fixes Ts :: "(passing \<times> ('a, 'w::len word) ty) list"
  assumes "Ts \<noteq> []" "length Ts < 2 ^ LENGTH('w)" "length t = length Ts"
    and ex: "\<forall>i<length Ts. \<exists>h. simple_get_hash (deduce (Ts ! i)) (t ! i) = Inr h"
  shows "\<exists>d. torch_hash (TupleT Ts) (TupleV t) = Inr d"
proof -
  from ex obtain f where f: "\<forall>i<length Ts. simple_get_hash (deduce (Ts ! i)) (t ! i) = Inr (f i)"
    by metis
  let ?hs = "map f [0..<length Ts]"
  have "map2 (\<lambda>E x. simple_get_hash (deduce E) x) Ts t = map Inr ?hs"
    using assms(3) f by (intro nth_equalityI) simp_all
  with assms(1-3) have "torch_hash (TupleT Ts) (TupleV t) = Inr (prefix_digest ?hs (length Ts - 1))"
    by (rule torch_hash_tuple_prefix)
  then show ?thesis ..
qed



section \<open>Sequences\<close>

text \<open>
  With every element hashed successfully, the loop is the left fold of \<open>hash_combine\<close>
  over the elements' hashes, from the seed it is entered with.
\<close>

lemma vector_loop_fold:
  "map (simple_get_hash T) v = map Inr hs \<Longrightarrow>
   vector_loop T seed v = Inr (foldl hash_combine seed hs)"
proof (induction v arbitrary: seed hs)
  case Nil
  then show ?case by simp
next
  case (Cons elem v)
  then obtain h hs' where hs: "hs = h # hs'" by (cases hs) auto
  with Cons.prems have "simple_get_hash T elem = Inr h" "map (simple_get_hash T) v = map Inr hs'"
    by simp_all
  then show ?case using Cons.IH [of hs' "hash_combine seed h"] hs by simp
qed

text \<open>
  C3.  For a vector whose element type is hashable (its \<open>torch::hash\<close> instantiates) and
  whose elements have the scalar hashes \<open>hs\<close>, in iteration order, the digest is the
  left fold \<open>seed := hash_combine seed h\<close> over \<open>hs\<close> started at seed 0; the empty
  vector of every such element type has digest 0.
\<close>

theorem vector_hash_fold:
  assumes "instantiate T = None" and "map (simple_get_hash T) v = map Inr hs"
  shows "torch_hash (VectorT T) (VectorV v) = Inr (foldl (\<lambda>seed h. hash_combine seed h) 0 hs)
    \<and> torch_hash (VectorT T) (VectorV []) = Inr 0"
  using assms by (simp add: vector_loop_fold)

theorem vector_hash_fold_witness:
  "torch_hash (VectorT (PlainT int_type)) (VectorV [Obj 1, Obj 2, Obj 3])
     = Inr (hash_combine (hash_combine (hash_combine 0 1) 2) 3)
   \<and> torch_hash (VectorT (PlainT int_type)) (VectorV []) = Inr 0"
proof -
  have h1: "instantiate (PlainT int_type) = None"
    by (simp add: dispatch_defs int_type_def)
  have h2: "map (simple_get_hash (PlainT int_type)) [Obj 1, Obj 2, Obj 3] = map Inr [1, 2, 3]"
    by (simp add: simple_get_hash_eq dispatch_defs int_type_def)
  from vector_hash_fold [OF h1 h2] show ?thesis
    by simp
qed

section \<open>One element\<close>

lemma hash_combine_zero: "hash_combine 0 h = h + 0x9e3779b9"
  by (simp add: hash_combine_def)

text \<open>
  C10.  The digest of the one-element tuple \<open>(x)\<close>, and of \<open>get_hash\<close> on the single
  argument \<open>x\<close>, is the result of hashing \<open>x\<close> itself, whatever that result is: no
  \<open>hash_combine\<close> is applied.  The one-element vector \<open>[x]\<close> of a hashable element type
  has the digest \<open>hash_combine 0 h\<close> for the hash \<open>h\<close> of \<open>x\<close>, and that is
  \<open>h + 0x9e3779b9\<close> in word arithmetic.
\<close>

theorem single_element_digest:
  fixes T :: "('a, 'w::len word) ty"
  shows "torch_hash (TupleT [(p, T)]) (TupleV [x]) = torch_hash T x
    \<and> torch_hash (TupleT [(p, T)]) (TupleV [x]) = simple_get_hash T x
    \<and> get_hash [T] [x] = torch_hash T x
    \<and> (instantiate T = None \<and> torch_hash T x = Inr h \<longrightarrow>
         torch_hash (VectorT T) (VectorV [x]) = Inr (hash_combine 0 h)
         \<and> hash_combine 0 h = h + 0x9e3779b9)"
  by (simp add: get_hash_def tuple_hash_0 simple_get_hash_eq hash_combine_zero)

theorem single_element_digest_witness:
  "torch_hash (TupleT [(ByValue, PlainT int_type)]) (TupleV [Obj 5]) = Inr 5
   \<and> torch_hash (PlainT int_type) (Obj 5) = Inr 5
   \<and> get_hash [PlainT int_type] [Obj 5] = Inr 5
   \<and> torch_hash (VectorT (PlainT int_type)) (VectorV [Obj 5]) = Inr 2654435774"
proof -
  note r = single_element_digest [of ByValue "PlainT int_type" "Obj 5" 5]
  have h: "instantiate (PlainT int_type) = None \<and> torch_hash (PlainT int_type) (Obj 5) = Inr 5"
    by (simp add: dispatch_defs int_type_def)
  from r h have "torch_hash (VectorT (PlainT int_type)) (VectorV [Obj 5]) = Inr (5 + 0x9e3779b9)"
    by simp
  moreover from r h have "torch_hash (TupleT [(ByValue, PlainT int_type)]) (TupleV [Obj 5]) = Inr 5"
    by simp
  moreover from r h have "get_hash [PlainT int_type] [Obj 5] = Inr 5"
    by simp
  ultimately show ?thesis using h
    by simp
qed

section \<open>Dispatch\<close>

text \<open>
  C5.  For an enumeration \<open>T\<close> (enumerations have no members, hence no static \<open>hash\<close>)
  and every value \<open>e\<close> of it, hashing \<open>e\<close> gives what hashing the converted value
  \<^verbatim>\<open>static_cast<R>(e)\<close> at the underlying type \<open>R\<close> gives, and hashing at \<open>R\<close> is the
  standard strategy: \<^verbatim>\<open>std::hash<R>\<close>.  Whether the library has a \<^verbatim>\<open>std::hash\<close> for the
  enumeration itself does not matter.
\<close>

theorem enum_hash_is_underlying_hash:
  assumes "is_enum T" and "static_hash T = None"
  shows "torch_hash (PlainT T) (Obj e)
      = torch_hash (PlainT (underlying_type T)) (Obj (to_underlying T e))
    \<and> torch_hash (PlainT (underlying_type T)) (Obj r) = Inr (underlying_std_hash T r)
    \<and> torch_hash (PlainT T) (Obj e) = Inr (underlying_std_hash T (to_underlying T e))"
  using assms by (simp add: dispatch_defs underlying_type_def split: option.split)

theorem enum_hash_is_underlying_hash_witness:
  "torch_hash (PlainT colour_enum) (Obj 2)
     = torch_hash (PlainT (underlying_type colour_enum)) (Obj 2)
   \<and> torch_hash (PlainT colour_enum) (Obj 2) = Inr 2"
proof -
  have h1: "is_enum colour_enum" by (simp add: colour_enum_def)
  have h2: "static_hash colour_enum = None" by (simp add: colour_enum_def)
  from enum_hash_is_underlying_hash [OF h1 h2, of 2 2] show ?thesis
    by (simp add: colour_enum_def)
qed

text \<open>
  C4, as the code has it.  The static \<open>hash\<close> of a type has no precedence.  For a type
  that is not an enumeration:
  \<^item> with a static \<open>hash\<close> and no usable \<^verbatim>\<open>std::hash\<close>, the result is the one of the
    static \<open>hash\<close>;
  \<^item> with a usable \<^verbatim>\<open>std::hash\<close> and no static \<open>hash\<close>, the result is the one of
    \<^verbatim>\<open>std::hash\<close>;
  \<^item> with both, the call of \<^verbatim>\<open>dispatch_hash\<close> is ambiguous: the type does not
    instantiate, and hashing returns neither the result of the static \<open>hash\<close> nor the
    one of \<^verbatim>\<open>std::hash\<close>.
  Hence a type with a static \<open>hash\<close> is hashed by it exactly when \<^verbatim>\<open>std::hash\<close> is not
  usable for the type.
\<close>

theorem custom_hash_has_no_precedence:
  "(\<not> is_enum T \<and> std_hash T = None \<and> static_hash T = Some g \<longrightarrow>
      torch_hash (PlainT T) (Obj x) = Inr (g x))
   \<and> (\<not> is_enum T \<and> std_hash T = Some f \<and> static_hash T = None \<longrightarrow>
      torch_hash (PlainT T) (Obj x) = Inr (f x))
   \<and> (\<not> is_enum T \<and> std_hash T = Some f \<and> static_hash T = Some g \<longrightarrow>
      torch_hash (PlainT T) (Obj x) = Inl AmbiguousCall
      \<and> instantiate (PlainT T) = Some AmbiguousCall
      \<and> torch_hash (PlainT T) (Obj x) \<noteq> Inr (g x)
      \<and> torch_hash (PlainT T) (Obj x) \<noteq> Inr (f x))
   \<and> (\<not> is_enum T \<and> static_hash T = Some g \<longrightarrow>
      (torch_hash (PlainT T) (Obj x) = Inr (g x) \<longleftrightarrow> std_hash T = None))"
proof (intro conjI impI)
  assume "\<not> is_enum T \<and> std_hash T = None \<and> static_hash T = Some g"
  then show "torch_hash (PlainT T) (Obj x) = Inr (g x)"
    by (simp add: dispatch_defs)
next
  assume "\<not> is_enum T \<and> std_hash T = Some f \<and> static_hash T = None"
  then show "torch_hash (PlainT T) (Obj x) = Inr (f x)"
    by (simp add: dispatch_defs)
next
  assume both: "\<not> is_enum T \<and> std_hash T = Some f \<and> static_hash T = Some g"
  then show amb: "torch_hash (PlainT T) (Obj x) = Inl AmbiguousCall"
    by (simp add: dispatch_defs)
  from both show "instantiate (PlainT T) = Some AmbiguousCall"
    by (simp add: dispatch_defs)
  from amb show "torch_hash (PlainT T) (Obj x) \<noteq> Inr (g x)"
    by simp
  from amb show "torch_hash (PlainT T) (Obj x) \<noteq> Inr (f x)"
    by simp
next
  assume custom: "\<not> is_enum T \<and> static_hash T = Some g"
  show "torch_hash (PlainT T) (Obj x) = Inr (g x) \<longleftrightarrow> std_hash T = None"
  proof (cases "std_hash T")
    case None
    with custom show ?thesis
      by (simp add: dispatch_defs)
  next
    case (Some f')
    with custom show ?thesis
      by (simp add: dispatch_defs)
  qed
qed

theorem custom_hash_has_no_precedence_witness:
  "torch_hash (PlainT custom_type) (Obj 3) = Inr 100
   \<and> torch_hash (PlainT int_type) (Obj 3) = Inr 3
   \<and> torch_hash (PlainT both_type) (Obj 3) = Inl AmbiguousCall
   \<and> instantiate (PlainT both_type) = Some AmbiguousCall
   \<and> torch_hash (PlainT both_type) (Obj 3) \<noteq> Inr 100
   \<and> torch_hash (PlainT both_type) (Obj 3) \<noteq> Inr 3"
proof -
  let ?g = "\<lambda>x :: int. word_of_int (31 * x + 7) :: 64 word"
  let ?f = "word_of_int :: int \<Rightarrow> 64 word"
  have h1: "\<not> is_enum custom_type \<and> std_hash custom_type = None
      \<and> static_hash custom_type = Some ?g"
    by (simp add: custom_type_def)
  have h2: "\<not> is_enum int_type \<and> std_hash int_type = Some ?f
      \<and> static_hash int_type = None"
    by (simp add: int_type_def)
  have h3: "\<not> is_enum both_type \<and> std_hash both_type = Some ?f
      \<and> static_hash both_type = Some ?g"
    by (simp add: both_type_def)
  from custom_hash_has_no_precedence [of custom_type ?g 3 ?f] h1
  have "torch_hash (PlainT custom_type) (Obj 3) = Inr 100"
    by simp
  moreover
  from custom_hash_has_no_precedence [of int_type ?g 3 ?f] h2
  have "torch_hash (PlainT int_type) (Obj 3) = Inr 3"
    by simp
  moreover
  from custom_hash_has_no_precedence [of both_type ?g 3 ?f] h3
  have "torch_hash (PlainT both_type) (Obj 3) = Inl AmbiguousCall
      \<and> instantiate (PlainT both_type) = Some AmbiguousCall"
    by simp
  ultimately show ?thesis
    by simp
qed

text \<open>
  C4, as the specification has it, fails: \<open>both_type\<close> has a static \<open>hash\<close> and a usable
  \<^verbatim>\<open>std::hash\<close>, its static \<open>hash\<close> maps the object 3 to 100, and hashing the object 3
  does not return 100.  Both overloads are viable and the call is ambiguous.
\<close>

theorem custom_precedence_counterexample:
  "static_hash both_type = Some (\<lambda>x. word_of_int (31 * x + 7))
   \<and> std_hash both_type = Some word_of_int
   \<and> torch_hash (PlainT both_type) (Obj 3) \<noteq> Inr (word_of_int (31 * 3 + 7))
   \<and> torch_hash (PlainT both_type) (Obj 3) = Inl AmbiguousCall"
  by (simp add: dispatch_defs both_type_def)

section \<open>Types without a hashing strategy\<close>

lemma first_error_None: "first_error es = None \<longleftrightarrow> (\<forall>e \<in> set es. e = None)"
  by (induction es rule: first_error.induct) simp_all

lemma viable_unhashable:
  "Option.is_none (std_hash T) \<Longrightarrow> \<not> is_enum T \<Longrightarrow> Option.is_none (static_hash T) \<Longrightarrow>
   viable T = []"
  by (simp add: dispatch_defs Option.is_none_def)

lemma unhashable_instantiate: "unhashable_inside T \<Longrightarrow> instantiate T \<noteq> None"
proof (induction T rule: unhashable_inside.induct)
  case (1 T)
  then show ?case by (simp add: viable_unhashable)
next
  case (2 Ts)
  from "2.prems" obtain E where E: "E \<in> set Ts" "unhashable_inside (deduce E)"
    by (auto simp: list_ex_iff)
  then have "instantiate (deduce E) \<noteq> None" by (rule "2.IH")
  with E(1) have "first_error (map (\<lambda>E. instantiate (deduce E)) Ts) \<noteq> None"
    by (auto simp: first_error_None)
  then show ?case by simp
next
  case (3 T)
  then show ?case by simp
qed

text \<open>A failing element at an index the recursion visits makes the recursion fail.\<close>

lemma tuple_hash_error:
  assumes "\<exists>e. simple_get_hash (deduce (Ts ! j)) (t ! j) = Inl e"
  shows "j \<le> unat idx \<Longrightarrow> \<exists>e. tuple_hash idx Ts t = Inl e"
proof (induction idx rule: measure_induct_rule [of unat])
  case (less idx)
  show ?case
  proof (cases "unat idx < length Ts \<and> unat idx < length t")
    case False
    then show ?thesis by (simp add: tuple_hash_out)
  next
    case inb: True
    show ?thesis
    proof (cases "idx = 0")
      case True
      with less.prems have "j = 0" by simp
      with True inb assms show ?thesis by (simp add: tuple_hash_0)
    next
      case nz: False
      show ?thesis
      proof (cases "j = unat idx")
        case True
        with assms nz inb show ?thesis
          by (auto simp: tuple_hash_step)
      next
        case False
        with less.prems nz have "j \<le> unat (idx - 1)"
          by (simp add: unat_minus_one)
        then have "\<exists>e. tuple_hash (idx - 1) Ts t = Inl e"
          using less.IH [of "idx - 1"] unat_pred_less [OF nz] by simp
        with nz inb show ?thesis
          by (auto simp: tuple_hash_step split: sum.splits)
      qed
    qed
  qed
qed

lemma unhashable_torch_hash:
  fixes T :: "('a, 'w::len word) ty"
  shows "unhashable_inside T \<Longrightarrow> arity_fits T \<Longrightarrow> \<exists>e. torch_hash T v = Inl e"
proof (induction T arbitrary: v rule: unhashable_inside.induct)
  case (1 T)
  then show ?case
    by (cases v) (simp_all add: dispatch_hash_def viable_unhashable)
next
  case (2 Ts)
  show ?case
  proof (cases v)
    case (TupleV t)
    show ?thesis
    proof (cases "length t = length Ts")
      case False
      with TupleV show ?thesis by simp
    next
      case len: True
      from "2.prems" obtain E where E: "E \<in> set Ts" "unhashable_inside (deduce E)"
        by (auto simp: list_ex_iff)
      then obtain j where j: "j < length Ts" "Ts ! j = E"
        by (auto simp: in_set_conv_nth)
      from "2.prems" E(1) have "arity_fits (deduce E)"
        by (simp add: list_all_iff)
      with E have "\<exists>e. torch_hash (deduce E) (t ! j) = Inl e"
        by (rule "2.IH")
      then have el: "\<exists>e. simple_get_hash (deduce (Ts ! j)) (t ! j) = Inl e"
        using j by (simp add: simple_get_hash_eq)
      from "2.prems" j have n: "0 < length Ts" "length Ts \<le> 2 ^ LENGTH('w)"
        by auto
      then have "unat (word_of_nat (length Ts) - 1 :: 'w word) = length Ts - 1"
        by (rule unat_start_index)
      with j have "j \<le> unat (word_of_nat (length Ts) - 1 :: 'w word)"
        by simp
      with el have "\<exists>e. tuple_hash (word_of_nat (length Ts) - 1 :: 'w word) Ts t = Inl e"
        by (rule tuple_hash_error)
      with TupleV len show ?thesis by simp
    qed
  qed simp_all
next
  case (3 T)
  then have "instantiate T \<noteq> None"
    by (simp add: unhashable_instantiate)
  then show ?case
    by (cases v) auto
qed

lemma unhashable_argument:
  "list_ex unhashable_inside Ts \<Longrightarrow> unhashable_inside (TupleT (map (Pair p) Ts))"
  by (simp add: list_ex_iff)

text \<open>
  C8.  Let a type contain, as itself or inside tuples and vectors at any depth, a type
  for which none of the three strategies resolves (no usable \<^verbatim>\<open>std::hash\<close>, not an
  enumeration, no static \<open>hash\<close>), every tuple arity being a \<^verbatim>\<open>std::size_t\<close>.  Then
  instantiating \<open>torch::hash\<close> at the type fails, and hashing yields a failure for every
  value, the empty vector included: never a digest.  The same holds for \<open>get_hash\<close> when
  such a type is among the types of its arguments.
\<close>

theorem unhashable_type_fails:
  fixes T :: "('a, 'w::len word) ty" and Ts :: "('a, 'w word) ty list"
  shows "(unhashable_inside T \<and> arity_fits T \<longrightarrow>
        instantiate T \<noteq> None \<and> (\<forall>v. \<exists>e. torch_hash T v = Inl e))
    \<and> (list_ex unhashable_inside Ts \<and> arity_fits (TupleT (map (Pair ByConstRef) Ts)) \<longrightarrow>
        (\<forall>args. \<exists>e. get_hash Ts args = Inl e))"
proof (intro conjI impI allI)
  assume "unhashable_inside T \<and> arity_fits T"
  then show "instantiate T \<noteq> None"
    by (simp add: unhashable_instantiate)
next
  fix v
  assume "unhashable_inside T \<and> arity_fits T"
  then show "\<exists>e. torch_hash T v = Inl e"
    by (simp add: unhashable_torch_hash)
next
  fix args
  assume a: "list_ex unhashable_inside Ts \<and> arity_fits (TupleT (map (Pair ByConstRef) Ts))"
  then have "unhashable_inside (TupleT (map (Pair ByConstRef) Ts))"
    by (simp only: unhashable_argument)
  with a have "\<exists>e. torch_hash (TupleT (map (Pair ByConstRef) Ts)) (TupleV args) = Inl e"
    by (simp only: unhashable_torch_hash)
  then show "\<exists>e. get_hash Ts args = Inl e"
    by (simp only: get_hash_def)
qed

theorem unhashable_type_fails_witness:
  "instantiate (VectorT (TupleT [(ByValue, PlainT int_type), (ByValue, PlainT opaque_type)]))
     \<noteq> None
   \<and> (\<forall>v. \<exists>e.
        torch_hash (VectorT (TupleT [(ByValue, PlainT int_type), (ByValue, PlainT opaque_type)])) v
          = Inl e)
   \<and> (\<forall>args. \<exists>e. get_hash [PlainT int_type, PlainT opaque_type] args = Inl e)"
proof -
  let ?T = "VectorT (TupleT [(ByValue, PlainT int_type), (ByValue, PlainT opaque_type)])"
  let ?Ts = "[PlainT int_type, PlainT opaque_type]"
  note r = unhashable_type_fails [of ?T ?Ts]
  have h1: "unhashable_inside ?T \<and> arity_fits ?T"
    by (simp add: int_type_def opaque_type_def)
  have h2: "list_ex unhashable_inside ?Ts \<and> arity_fits (TupleT (map (Pair ByConstRef) ?Ts))"
    by (simp add: int_type_def opaque_type_def)
  from r h1 have "instantiate ?T \<noteq> None \<and> (\<forall>v. \<exists>e. torch_hash ?T v = Inl e)"
    by blast
  moreover from r h2 have "\<forall>args. \<exists>e. get_hash ?Ts args = Inl e"
    by blast
  ultimately show ?thesis
    by blast
qed

section \<open>Failures are decided by the type\<close>

lemma vector_loop_defined:
  "\<forall>x \<in> set v. \<exists>h. simple_get_hash T x = Inr h \<Longrightarrow> \<exists>d. vector_loop T seed v = Inr d"
  by (induction v arbitrary: seed) auto

lemma dispatch_hash_instantiate:
  "(\<exists>d. dispatch_hash T x = Inr d) \<longleftrightarrow> instantiate (PlainT T) = None"
  by (simp add: dispatch_hash_def split: list.splits)

text \<open>
  On the values of a type, hashing returns a digest exactly when the type instantiates:
  no failure depends on the value.
\<close>

lemma instantiate_coherent:
  fixes T :: "('a, 'w::len word) ty"
  shows "arity_fits T \<Longrightarrow> well_typed T v \<Longrightarrow>
    (\<exists>d. torch_hash T v = Inr d) \<longleftrightarrow> instantiate T = None"
proof (induction T arbitrary: v rule: instantiate.induct)
  case (1 T)
  then show ?case
    using dispatch_hash_instantiate [of T] by (cases v) simp_all
next
  case (2 Ts)
  from "2.prems"(2) obtain t where v: "v = TupleV t"
    and wt: "list_all2 (\<lambda>E x. well_typed (deduce E) x) Ts t"
    by (cases v) simp_all
  from wt have len: "length t = length Ts"
    by (simp add: list_all2_lengthD)
  from "2.prems"(1) have fits: "length Ts < 2 ^ LENGTH('w)"
    and fit_el: "\<And>E. E \<in> set Ts \<Longrightarrow> arity_fits (deduce E)"
    by (simp_all add: list_all_iff)
  have el: "(\<exists>d. simple_get_hash (deduce (Ts ! i)) (t ! i) = Inr d)
      \<longleftrightarrow> instantiate (deduce (Ts ! i)) = None" if "i < length Ts" for i
  proof -
    from that have "Ts ! i \<in> set Ts" by simp
    moreover from wt that have "well_typed (deduce (Ts ! i)) (t ! i)"
      by (rule list_all2_nthD)
    ultimately show ?thesis
      using "2.IH" [of "Ts ! i" "t ! i"] fit_el that
      by (cases "Ts = []") (simp_all add: simple_get_hash_eq)
  qed
  show ?case
  proof (cases "Ts = []")
    case True
    with v len show ?thesis by (simp add: tuple_hash_empty)
  next
    case ne: False
    show ?thesis
    proof (cases "\<forall>E \<in> set Ts. instantiate (deduce E) = None")
      case True
      then have "\<forall>i<length Ts. \<exists>h. simple_get_hash (deduce (Ts ! i)) (t ! i) = Inr h"
        using el by simp
      with ne fits len have "\<exists>d. torch_hash (TupleT Ts) (TupleV t) = Inr d"
        by (rule tuple_hash_defined)
      moreover from True ne have "instantiate (TupleT Ts) = None"
        by (simp add: first_error_None)
      ultimately show ?thesis using v by simp
    next
      case False
      then obtain j where j: "j < length Ts" "instantiate (deduce (Ts ! j)) \<noteq> None"
        by (auto simp: in_set_conv_nth)
      with el have "\<not> (\<exists>d. simple_get_hash (deduce (Ts ! j)) (t ! j) = Inr d)"
        by simp
      then have "\<exists>e. simple_get_hash (deduce (Ts ! j)) (t ! j) = Inl e"
        by (cases "simple_get_hash (deduce (Ts ! j)) (t ! j)") simp_all
      moreover from ne fits have "unat (word_of_nat (length Ts) - 1 :: 'w word) = length Ts - 1"
        by (intro unat_start_index) simp_all
      with j have "j \<le> unat (word_of_nat (length Ts) - 1 :: 'w word)"
        by simp
      ultimately have "\<exists>e. tuple_hash (word_of_nat (length Ts) - 1 :: 'w word) Ts t = Inl e"
        by (rule tuple_hash_error)
      moreover from False ne have "instantiate (TupleT Ts) \<noteq> None"
        by (auto simp: first_error_None)
      ultimately show ?thesis using v len by auto
    qed
  qed
next
  case (3 T)
  from "3.prems"(2) obtain xs where v: "v = VectorV xs" and wt: "list_all (well_typed T) xs"
    by (cases v) simp_all
  show ?case
  proof (cases "instantiate T")
    case None
    have "\<forall>x \<in> set xs. \<exists>h. simple_get_hash T x = Inr h"
    proof
      fix x assume "x \<in> set xs"
      with wt have "well_typed T x" by (simp add: list_all_iff)
      with "3.prems"(1) None show "\<exists>h. simple_get_hash T x = Inr h"
        using "3.IH" [of x] by (simp add: simple_get_hash_eq)
    qed
    then have "\<exists>d. vector_loop T 0 xs = Inr d"
      by (rule vector_loop_defined)
    with None v show ?thesis by simp
  next
    case (Some e)
    with v show ?thesis by simp
  qed
qed

section \<open>The order of the elements\<close>

text \<open>
  For a fixed seed, \<open>hash_combine\<close> is injective in the value: changing the last
  element hashed into a sequence digest always changes the digest.  Swapping two
  elements changes the digest of the sequence \<open>[1, 2]\<close>.
\<close>

lemma xor_left_cancel:
  fixes s x y :: "'w::len word"
  shows "s XOR x = s XOR y \<longleftrightarrow> x = y"
proof
  assume "s XOR x = s XOR y"
  then have "s XOR (s XOR x) = s XOR (s XOR y)"
    by simp
  then show "x = y"
    by (simp add: xor.assoc [symmetric])
qed simp

lemma hash_combine_inj_value: "hash_combine s a = hash_combine s b \<longleftrightarrow> a = b"
  by (simp add: hash_combine_def xor_left_cancel)

lemma vector_order_example:
  "torch_hash (VectorT (PlainT int_type)) (VectorV [Obj 1, Obj 2])
     \<noteq> torch_hash (VectorT (PlainT int_type)) (VectorV [Obj 2, Obj 1])"
  by (simp add: simple_get_hash_eq dispatch_defs int_type_def hash_combine_def)

end
